theory Spec2Isabelle
  imports Main "HOL-Library.Sublist"
begin

section \<open>Strings of the host language\<close>

text \<open>
  A JavaScript string is modelled as a \<open>string\<close> (a list of characters); one character
  stands for one code unit, so \<open>length\<close> is the host's \<open>.length\<close>, \<open>drop i\<close> is
  \<open>.slice(i)\<close>, \<open>take i\<close> is \<open>.slice(0, i)\<close> and \<open>prefix p s\<close> is \<open>s.startsWith(p)\<close>.
  The empty string stands for every falsy value a token variable can hold
  (\<open>undefined\<close> and \<open>""\<close>): the code only ever tests \<open>if (token)\<close> and \<open>if (!token)\<close>.
\<close>

definition newline :: char where
  "newline = CHR 0x0A"

definition carriage_return :: char where
  "carriage_return = CHR 0x0D"

definition backslash :: char where
  "backslash = CHR 0x5C"

text \<open>\<open>s.slice(start, end)\<close>: a negative bound counts from the end of the string.\<close>

definition slice :: "string \<Rightarrow> int \<Rightarrow> int \<Rightarrow> string" where
  "slice s start stop =
     (let len = int (length s);
          from = (if start < 0 then max (len + start) 0 else min start len);
          to = (if stop < 0 then max (len + stop) 0 else min stop len)
      in take (nat (to - from)) (drop (nat from) s))"

text \<open>\<open>s.replace(/c/g, rep)\<close> for a single character \<open>c\<close>.\<close>

definition replace_all :: "char \<Rightarrow> string \<Rightarrow> string \<Rightarrow> string" where
  "replace_all c rep s = concat (map (\<lambda>x. if x = c then rep else [x]) s)"

text \<open>\<open>(s.match(/\n/g) || []).length\<close>: the number of newline characters of \<open>s\<close>.\<close>

definition count_newlines :: "string \<Rightarrow> nat" where
  "count_newlines s = length (filter (\<lambda>c. c = newline) s)"

text \<open>\<open>s.lastIndexOf(c)\<close>: the last position of \<open>c\<close>, or \<open>-1\<close>.\<close>

definition lastIndexOf :: "string \<Rightarrow> char \<Rightarrow> int" where
  "lastIndexOf s c =
     (if c \<in> set s then int (length s) - 1 - int (length (takeWhile (\<lambda>x. x \<noteq> c) (rev s)))
      else - 1)"

text \<open>The decimal text of a number, as a template literal prints an integer.\<close>

fun digits :: "nat \<Rightarrow> string" where
  "digits n =
     (if n < 10 then [''0123456789'' ! n]
      else digits (n div 10) @ [''0123456789'' ! (n mod 10)])"

definition show_int :: "int \<Rightarrow> string" where
  "show_int i = (if i < 0 then CHR ''-'' # digits (nat (- i)) else digits (nat i))"

section \<open>Tokens, rules and grammars (lex.js)\<close>

text \<open>
  A token is a String object carrying the properties \<open>type\<close>, \<open>mode\<close>, \<open>line\<close>, \<open>col\<close>
  and, when it opened a sub-mode, \<open>tokens\<close>. \<open>tok_text\<close> is the string itself.
\<close>

datatype token = Token (tok_text: string) (tok_type: string) (tok_mode: string)
  (tok_line: int) (tok_col: int) (tok_tokens: "token list option")

text \<open>
  The second component a function rule returns: absent (\<open>undefined\<close>), the name of a mode
  to enter, or \<open>-1\<close> to leave the current mode.
\<close>

datatype matchType = Undefined | Mode string | Pop

text \<open>
  A grammar rule is a string, a regular expression or a function. A regular expression
  is represented by what \<open>current.match(pattern)\<close> yields for it: \<open>None\<close> for \<open>null\<close>,
  \<open>Some m\<close> for the matched text \<open>[0]\<close> (regular expressions carrying state, the sticky
  and global flags, are outside the model). A function receives the code ahead, the code
  behind and the tokens parsed so far in this invocation; it returns \<open>None\<close> for
  \<open>undefined\<close> or \<open>Some (match, matchType)\<close> for the array \<open>[match, matchType]\<close>.
  Functions of the html/js grammar read and write variables of their module, so every
  function also takes and returns a state \<open>'s\<close>.
\<close>

datatype 's pattern =
    Str string
  | RegExp "string \<Rightarrow> string option"
  | Func "'s \<Rightarrow> string \<Rightarrow> string \<Rightarrow> token list \<Rightarrow> (string \<times> matchType) option \<times> 's"

text \<open>
  An object is the list of its keys in enumeration order. Every rule value is a list of
  patterns: \<open>value = Array.isArray(value) ? value : [value]\<close>.
\<close>

type_synonym 's rules = "(string \<times> 's pattern list) list"

type_synonym 's grammar = "(string \<times> 's rules) list"

text \<open>
  The only \<open>throw\<close> of lex.js: an \<open>Error\<close> with its message. The statement stands
  between the markers \<open>//#IFDEV\<close> and \<open>//#ENDIF\<close>; the source file, which is what is
  modelled here, contains it.
\<close>

datatype error = Error string

text \<open>\<open>grammar[mode]\<close>; \<open>for (var type in undefined)\<close> runs no iteration.\<close>

definition rules_of :: "'s grammar \<Rightarrow> string \<Rightarrow> 's rules" where
  "rules_of grammar mode = (case map_of grammar mode of None \<Rightarrow> [] | Some rs \<Rightarrow> rs)"

text \<open>
  The body of the inner loop for one pattern. A string pattern that is not a prefix
  leaves \<open>token\<close> as it was; a regular expression and a string leave \<open>matchType\<close> as the
  last function call set it.
\<close>

fun match_pattern :: "'s pattern \<Rightarrow> string \<Rightarrow> string \<Rightarrow> token list \<Rightarrow>
    string \<times> matchType \<times> 's \<Rightarrow> string \<times> matchType \<times> 's" where
  "match_pattern (RegExp r) current behind result (token, matchType, st) =
     ((case r current of None \<Rightarrow> [] | Some m \<Rightarrow> m), matchType, st)"
| "match_pattern (Func f) current behind result (token, matchType, st) =
     (case f st current behind result of
        (None, st') \<Rightarrow> ([], Undefined, st')
      | (Some (m, d), st') \<Rightarrow> (m, d, st'))"
| "match_pattern (Str p) current behind result (token, matchType, st) =
     (if prefix p current then (p, matchType, st) else (token, matchType, st))"

text \<open>\<open>for (let pattern of value)\<close>, left at the first truthy token.\<close>

fun scan_value :: "'s pattern list \<Rightarrow> string \<Rightarrow> string \<Rightarrow> token list \<Rightarrow>
    string \<times> matchType \<times> 's \<Rightarrow> string \<times> matchType \<times> 's" where
  "scan_value [] current behind result acc = acc"
| "scan_value (p # ps) current behind result acc =
     (case match_pattern p current behind result acc of
        (token, matchType, st) \<Rightarrow>
          if token \<noteq> [] then (token, matchType, st)
          else scan_value ps current behind result (token, matchType, st))"

text \<open>
  \<open>for (var type in grammar[mode])\<close> with the label \<open>Token\<close>: the result is the token, the
  matchType, the key \<open>type\<close> the loops stopped at, and the state.
\<close>

fun scan_rules :: "'s rules \<Rightarrow> string \<Rightarrow> string \<Rightarrow> token list \<Rightarrow>
    string \<times> matchType \<times> string \<times> 's \<Rightarrow> string \<times> matchType \<times> string \<times> 's" where
  "scan_rules [] current behind result acc = acc"
| "scan_rules ((ty, val) # rest) current behind result (token, matchType, type, st) =
     (case scan_value val current behind result (token, matchType, st) of
        (token', matchType', st') \<Rightarrow>
          if token' \<noteq> [] then (token', matchType', ty, st')
          else scan_rules rest current behind result (token', matchType', ty, st'))"

text \<open>Step 1 of the loop body, from \<open>let matchType = undefined, token = undefined\<close>.\<close>

definition identify :: "'s grammar \<Rightarrow> 's \<Rightarrow> string \<Rightarrow> string \<Rightarrow> string \<Rightarrow> token list \<Rightarrow>
    string \<times> matchType \<times> string \<times> 's" where
  "identify grammar st mode current behind result =
     scan_rules (rules_of grammar mode) current behind result ([], Undefined, [], st)"

text \<open>
  The warning sign that marks the offending offset in the message, written as the bytes
  of its UTF-8 encoding (U+26A0 U+FE0F).
\<close>

definition warning_sign :: string where
  "warning_sign = [CHR 0xE2, CHR 0x9A, CHR 0xA0, CHR 0xEF, CHR 0xB8, CHR 0x8F]"

definition context_window :: "string \<Rightarrow> nat \<Rightarrow> string" where
  "context_window code index =
     replace_all newline [backslash, CHR ''n'']
       (replace_all carriage_return [backslash, CHR ''r'']
          (slice code (int index - 10) (int index) @ warning_sign @ take 20 (drop index code)))"

definition unknown_token :: "string \<Rightarrow> int \<Rightarrow> int \<Rightarrow> string \<Rightarrow> error" where
  "unknown_token mode line col msg =
     Error (''Unknown token within \"'' @ mode @ ''\" at '' @ show_int line @ '':'' @ show_int col
            @ [carriage_return, newline] @ ''\"'' @ msg @ ''\"'')"

text \<open>\<open>(matchType && matchType !== -1) ? matchType : mode\<close>.\<close>

fun mode_of :: "matchType \<Rightarrow> string \<Rightarrow> string" where
  "mode_of (Mode m) mode = (if m \<noteq> [] then m else mode)"
| "mode_of _ mode = mode"

text \<open>\<open>else if (matchType)\<close> after \<open>matchType === -1\<close> was excluded: the mode to descend into.\<close>

fun descend :: "matchType \<Rightarrow> string option" where
  "descend (Mode m) = (if m \<noteq> [] then Some m else None)"
| "descend _ = None"

text \<open>Step 4: the column after a token.\<close>

definition next_col :: "string \<Rightarrow> int \<Rightarrow> int" where
  "next_col token col =
     (let lastLn = lastIndexOf token newline
      in (if lastLn > - 1 then - lastLn else col) + int (length token))"

text \<open>
  The \<open>while\<close> loop of \<open>lex\<close>, one unfolding per iteration. The result is \<open>None\<close> when
  the loop does not return, \<open>Some (Inl e, st)\<close> when it throws \<open>e\<close>, and
  \<open>Some (Inr tokens, st)\<close> when it returns \<open>tokens\<close>; \<open>st\<close> is the state the rule functions
  left. The recursive call of the source passes a truthy \<open>matchType\<close> as \<open>mode\<close>, which
  \<open>mode || Object.keys(grammar)[0]\<close> keeps, so it enters the loop directly.
\<close>

partial_function (option) lex_loop :: "'s grammar \<Rightarrow> 's \<Rightarrow> string \<Rightarrow> string \<Rightarrow> token list \<Rightarrow>
    int \<Rightarrow> int \<Rightarrow> nat \<Rightarrow> ((error + token list) \<times> 's) option" where
  "lex_loop grammar st code mode result line col index =
     (if index < length code then
        (let current = drop index code in
         case identify grammar st mode current (take index code) result of
           (token, matchType, type, st1) \<Rightarrow>
             if token = [] then
               Some (Inl (unknown_token mode line col (context_window code index)), st1)
             else
               let tok = Token token type (mode_of matchType mode) line col None in
               if matchType = Pop then Some (Inr (result @ [tok]), st1)
               else
                 Option.bind
                   (case descend matchType of
                      Some m \<Rightarrow>
                        Option.bind
                          (lex_loop grammar st1 code m [] line (col + int (length token))
                             (index + length token))
                          (\<lambda>(r, st2). case r of
                              Inl e \<Rightarrow> Some (Inl e, st2)
                            | Inr sub \<Rightarrow>
                                let tokens = tok # sub in
                                Some (Inr (Token (concat (map tok_text tokens)) type mode line col
                                             (Some tokens)), st2))
                    | None \<Rightarrow> Some (Inr tok, st1))
                   (\<lambda>(r, st3). case r of
                       Inl e \<Rightarrow> Some (Inl e, st3)
                     | Inr t \<Rightarrow>
                         lex_loop grammar st3 code mode (result @ [t])
                           (line + int (count_newlines (tok_text t)))
                           (next_col (tok_text t) col)
                           (index + length (tok_text t))))
      else Some (Inr result, st))"

text \<open>\<open>Object.keys(grammar)[0]\<close>; in an empty grammar it is \<open>undefined\<close>, which as a key
  and in the message reads \<open>"undefined"\<close>.\<close>

definition first_mode :: "'s grammar \<Rightarrow> string" where
  "first_mode grammar = (case grammar of [] \<Rightarrow> ''undefined'' | (m, _) # _ \<Rightarrow> m)"

text \<open>\<open>mode = mode || Object.keys(grammar)[0]\<close>; the empty \<open>mode\<close> stands for \<open>null\<close>.\<close>

definition start_mode :: "'s grammar \<Rightarrow> string \<Rightarrow> string" where
  "start_mode grammar mode = (if mode \<noteq> [] then mode else first_mode grammar)"

text \<open>
  \<open>lex(grammar, code, mode, result, line, col, index)\<close>. The defaults of the source are
  \<open>lex grammar st code [] [] 1 1 0\<close>.
\<close>

definition lex :: "'s grammar \<Rightarrow> 's \<Rightarrow> string \<Rightarrow> string \<Rightarrow> token list \<Rightarrow>
    int \<Rightarrow> int \<Rightarrow> nat \<Rightarrow> ((error + token list) \<times> 's) option" where
  "lex grammar st code mode result line col index =
     lex_loop grammar st code (start_mode grammar mode) result line col index"

declare lex_loop.simps [code]

section \<open>The html/js grammar (lex-htmljs.js)\<close>

text \<open>
  The variables \<open>braceDepth\<close> and \<open>templateDepth\<close> are declared once, in the block that
  builds the grammar; the options \<open>allowHashTemplates\<close> and \<open>allowUnknownTagTokens\<close> are
  properties of the grammar object. They are the state the rule functions read and write;
  a call of \<open>lex\<close> receives them as the previous call left them.
\<close>

record htmljs_state =
  braceDepth :: int
  templateDepth :: int
  allowHashTemplates :: bool
  allowUnknownTagTokens :: bool

text \<open>The state when the module has been loaded and nothing has been lexed yet.\<close>

definition initial_state :: htmljs_state where
  "initial_state = \<lparr>braceDepth = 0, templateDepth = 0,
     allowHashTemplates = False, allowUnknownTagTokens = False\<rparr>"

text \<open>\<open>code[0] === c\<close>.\<close>

definition first_is :: "char \<Rightarrow> string \<Rightarrow> bool" where
  "first_is c code = (case code of [] \<Rightarrow> False | x # _ \<Rightarrow> x = c)"

text \<open>\<open>/^[ \t\v\f\xa0]+/\<close>\<close>

definition whitespace :: "string \<Rightarrow> string option" where
  "whitespace code =
     (let m = takeWhile (\<lambda>c. c \<in> set [CHR '' '', CHR 0x09, CHR 0x0B, CHR 0x0C, CHR 0xA0]) code
      in if m = [] then None else Some m)"

text \<open>\<open>/^\r?\n/\<close>\<close>

definition ln :: "string \<Rightarrow> string option" where
  "ln code =
     (if prefix [carriage_return, newline] code then Some [carriage_return, newline]
      else if prefix [newline] code then Some [newline]
      else None)"

text \<open>
  \<open>/^\/\/.*(?=\r?\n)/\<close>: the dot is greedy and matches neither a carriage return nor a
  newline, so the match is the whole run after \<open>//\<close>, and only if a line end follows.
\<close>

definition line_comment :: "string \<Rightarrow> string option" where
  "line_comment code =
     (if prefix ''//'' code then
        (let body = takeWhile (\<lambda>c. c \<noteq> newline \<and> c \<noteq> carriage_return) (drop 2 code);
             rest = drop (2 + length body) code
         in if prefix [newline] rest \<or> prefix [carriage_return, newline] rest
            then Some (''//'' @ body) else None)
      else None)"

text \<open>The shortest prefix that ends with \<open>*/\<close>, for the lazy \<open>[\s\S]*?\*\/\<close>.\<close>

fun until_close :: "string \<Rightarrow> string option" where
  "until_close [] = None"
| "until_close (c # cs) =
     (if prefix ''*/'' (c # cs) then Some ''*/''
      else map_option ((#) c) (until_close cs))"

text \<open>\<open>/^\/\*[\s\S]*?\*\//\<close>\<close>

definition block_comment :: "string \<Rightarrow> string option" where
  "block_comment code =
     (if prefix ''/*'' code then map_option ((@) ''/*'') (until_close (drop 2 code)) else None)"

text \<open>
  The other regular expressions of the grammar (wide character classes,
  alternations that backtrack, lookbehinds) are taken as they are compiled by the host:
  each is a parameter, named after the rule it belongs to.
\<close>

record htmljs_regexps =
  re_openTag :: "string \<Rightarrow> string option"
  re_attribute :: "string \<Rightarrow> string option"
  re_unknown :: "string \<Rightarrow> string option"
  re_closeTag :: "string \<Rightarrow> string option"
  re_hex :: "string \<Rightarrow> string option"
  re_number :: "string \<Rightarrow> string option"
  re_regex :: "string \<Rightarrow> string option"
  re_string_double :: "string \<Rightarrow> string option"
  re_string_single :: "string \<Rightarrow> string option"
  re_identifier :: "string \<Rightarrow> string option"
  re_html_comment :: "string \<Rightarrow> string option"
  re_html_text :: "string \<Rightarrow> string option"
  re_template_text_hash :: "string \<Rightarrow> string option"
  re_template_text :: "string \<Rightarrow> string option"
  re_squote_text :: "string \<Rightarrow> string option"
  re_dquote_text :: "string \<Rightarrow> string option"

type_synonym htmljs_rule =
  "htmljs_state \<Rightarrow> string \<Rightarrow> string \<Rightarrow> token list \<Rightarrow> (string \<times> matchType) option \<times> htmljs_state"

definition expr :: htmljs_rule where
  "expr st code prev toks =
     (if (allowHashTemplates st \<and> prefix ''#{'' code) \<or> prefix ''${'' code then
        (Some (take 2 code, Mode ''js''),
         st\<lparr>templateDepth := (if templateDepth st \<le> 0 then 1 else templateDepth st),
            braceDepth := 0\<rparr>)
      else (None, st))"

definition template :: htmljs_rule where
  "template st code prev toks =
     (if first_is CHR ''`'' code then
        (Some (''`'', Pop), st\<lparr>templateDepth := templateDepth st - 1\<rparr>)
      else (None, st))"

definition openTag :: "(string \<Rightarrow> string option) \<Rightarrow> string \<Rightarrow> htmljs_rule" where
  "openTag re goInto st code prev toks =
     (case re code of None \<Rightarrow> (None, st) | Some m \<Rightarrow> (Some (m, Mode goInto), st))"

definition tagEnd :: htmljs_rule where
  "tagEnd st code prev toks =
     (if first_is CHR ''>'' code then (Some (''>'', Pop), st)
      else if prefix ''/>'' code then (Some (''/>'', Pop), st)
      else (None, st))"

text \<open>
  \<open>[code.match(re) || []][0]\<close>: the match array, whose second element is \<open>undefined\<close>, or
  the empty array, which leaves token and matchType \<open>undefined\<close> as no match does.
\<close>

definition match_array :: "(string \<Rightarrow> string option) \<Rightarrow> string \<Rightarrow> (string \<times> matchType) option" where
  "match_array re code = map_option (\<lambda>m. (m, Undefined)) (re code)"

definition tag :: "htmljs_regexps \<Rightarrow> htmljs_state rules" where
  "tag re =
     [(''attribute'', [RegExp (re_attribute re)]),
      (''string'',
         [Func (\<lambda>st code prev toks.
            (if first_is CHR 0x27 code then Some ([CHR 0x27], Mode ''squote'') else None, st)),
          Func (\<lambda>st code prev toks.
            (if first_is CHR 0x22 code then Some ([CHR 0x22], Mode ''dquote'') else None, st))]),
      (''equals'', [Str ''='']),
      (''template'', [Func template]),
      (''tagEnd'', [Func tagEnd]),
      (''whitespace'', [RegExp whitespace, RegExp ln]),
      (''unknown'',
         [Func (\<lambda>st code prev toks.
            (if allowUnknownTagTokens st then match_array (re_unknown re) code else None, st))])]"

definition regexBefore :: "string list" where
  "regexBefore =
     [''{'', ''('', ''['', ''.'', '';'', '','', ''<'', ''>'', ''<='', ''>='', ''=='', ''!='', ''==='',
      ''!=='', ''+'', ''-'', ''*'', ''%'', ''<<'', ''>>'', ''>>>'', ''&'', ''|'', ''^'', ''!'', ''~'',
      ''&&'', ''||'', ''?'', '':'', ''='', ''+='', ''-='', ''*='', ''%='', ''<<='', ''>>='', ''>>>='',
      ''&='', ''|='', ''^='', ''/='']"

text \<open>The nearest token before, skipping line ends, whitespace and comments.\<close>

fun prevToken :: "token list \<Rightarrow> string option" where
  "prevToken [] = None"
| "prevToken (t # ts) =
     (if tok_type t \<noteq> ''ln'' \<and> tok_type t \<noteq> ''whitespace'' \<and> tok_type t \<noteq> ''comment''
      then Some (tok_text t) else prevToken ts)"

definition regex :: "(string \<Rightarrow> string option) \<Rightarrow> htmljs_rule" where
  "regex re st code prev toks =
     (case prevToken (rev toks) of
        None \<Rightarrow> (None, st)
      | Some p \<Rightarrow>
          if p \<in> set regexBefore then
            (case re code of None \<Rightarrow> (None, st) | Some m \<Rightarrow> (Some (m, Undefined), st))
          else (None, st))"

definition brace1 :: htmljs_rule where
  "brace1 st code prev toks =
     (if first_is CHR ''{'' code then
        (Some (''{'', Undefined), st\<lparr>braceDepth := braceDepth st + 1\<rparr>)
      else (None, st))"

definition brace2 :: htmljs_rule where
  "brace2 st code prev toks =
     (if first_is CHR ''}'' code then
        (if braceDepth st = 0 \<and> templateDepth st \<noteq> 0 then (Some (''}'', Pop), st)
         else (Some (''}'', Undefined), st\<lparr>braceDepth := braceDepth st - 1\<rparr>))
      else (None, st))"

text \<open>The operator list ends with the empty string that the trailing blank leaves in
  \<open>split\<close>; it is a prefix of everything and never a token.\<close>

definition js :: "htmljs_regexps \<Rightarrow> htmljs_state rules" where
  "js re =
     [(''whitespace'', [RegExp whitespace]),
      (''ln'', [RegExp ln]),
      (''semicolon'', [Str '';'']),
      (''comment'', [RegExp line_comment, RegExp block_comment]),
      (''template'',
         [Func (\<lambda>st code prev toks.
            if first_is CHR ''`'' code then
              (Some (''`'', Mode ''template''),
               st\<lparr>templateDepth := templateDepth st + 1, braceDepth := 0\<rparr>)
            else (None, st))]),
      (''brace1'', [Func brace1]),
      (''brace2'', [Func brace2]),
      (''value'', map Str [''null'', ''true'', ''false'', ''Infinity'', ''NaN'', ''undefined'',
         ''globalThis'']),
      (''hex'', [RegExp (re_hex re)]),
      (''number'', [RegExp (re_number re)]),
      (''regex'', [Func (regex (re_regex re))]),
      (''operator'', map Str
         [''&&'', ''||'', ''!'', ''=>'',
          ''<<='', ''>>='', ''&='', ''^='', ''|='', ''&&='', ''||='',
          ''&'', ''|'', ''^'', ''~'', ''>>>'', ''<<'', ''>>'',
          ''==='', ''!==='', ''=='', ''!='', ''>='', ''>'', ''<='', ''<'',
          ''='', ''**='', ''+='', ''-='', ''*='', ''/='', ''%='', ''??='',
          ''++'', ''--'', ''**'', ''+'', ''-'', ''*'', ''/'', ''%'',
          '','', ''...'', ''.'', ''('', '')'', ''['', '']'', ''?'', '':'', [] ]),
      (''keyword'', map Str
         [''await'', ''break'', ''case'', ''catch'', ''class'', ''constructor'', ''const'',
          ''continue'', ''debugger'', ''default'', ''delete'', ''do'', ''enum'', ''else'',
          ''export'', ''extends'', ''finally'', ''for'', ''from'', ''function'', ''if'',
          ''implements'', ''import'', ''in'', ''instanceof'', ''interface'', ''let'', ''new'',
          ''package'', ''private'', ''protected'', ''public'', ''return'', ''static'', ''super'',
          ''switch'', ''this'', ''throw'', ''try'', ''typeof'', ''var'', ''void'', ''while'',
          ''with'', ''yield'']),
      (''string'', [RegExp (re_string_double re), RegExp (re_string_single re)]),
      (''identifier'', [RegExp (re_identifier re)])]"

definition lexHtmlJs :: "htmljs_regexps \<Rightarrow> htmljs_state grammar" where
  "lexHtmlJs re =
     [(''js'', js re),
      (''html'',
         [(''comment'', [RegExp (re_html_comment re)]),
          (''closeTag'', [RegExp (re_closeTag re)]),
          (''openTag'', [Func (openTag (re_openTag re) ''tag'')]),
          (''text'', [RegExp (re_html_text re)])]),
      (''template'',
         [(''expr'', [Func expr]),
          (''comment'', [RegExp (re_html_comment re)]),
          (''closeTag'', [RegExp (re_closeTag re)]),
          (''openTag'', [Func (openTag (re_openTag re) ''templateTag'')]),
          (''template'', [Func template]),
          (''text'',
             [Func (\<lambda>st code prev toks.
                (match_array (if allowHashTemplates st then re_template_text_hash re
                              else re_template_text re) code, st))])]),
      (''templateTag'', (''expr'', [Func expr]) # tag re),
      (''tag'', tag re),
      (''squote'',
         [(''expr'', [Func expr]),
          (''text'', [RegExp (re_squote_text re)]),
          (''quote'',
             [Func (\<lambda>st code prev toks.
                (if first_is CHR 0x27 code then Some ([CHR 0x27], Pop) else None, st))])]),
      (''dquote'',
         [(''expr'', [Func expr]),
          (''text'', [RegExp (re_dquote_text re)]),
          (''quote'',
             [Func (\<lambda>st code prev toks.
                (if first_is CHR 0x22 code then Some ([CHR 0x22], Pop) else None, st))])])]"

section \<open>Functional regular expressions (fregex.js)\<close>

text \<open>
  What a matcher returns: \<open>false\<close>, \<open>true\<close> (the string rule returns the boolean of its
  comparison) or the number of tokens used. Where a number is expected \<open>true\<close> counts as 1.
\<close>

datatype used = JFalse | JTrue | JNum nat

fun count :: "used \<Rightarrow> nat" where
  "count JFalse = 0"
| "count JTrue = 1"
| "count (JNum n) = n"

text \<open>The exception of reading a property of \<open>undefined\<close>, or calling what is no function.\<close>

datatype fault = TypeError

text \<open>
  A matcher applied to a token slice returns (\<open>Some (Inr u)\<close>), throws (\<open>Some (Inl e)\<close>)
  or does not return (\<open>None\<close>).
\<close>

type_synonym matcher = "token list \<Rightarrow> (fault + used) option"

text \<open>
  One property of an attribute-predicate object, with the value it asks for: \<open>{type: v}\<close>,
  \<open>{mode: v}\<close>, \<open>{line: n}\<close>, \<open>{col: n}\<close>. The value has the type of the token's
  property, so the loose comparison is plain equality.
\<close>

datatype attribute = AttrType string | AttrMode string | AttrLine int | AttrCol int

text \<open>\<open>tokens[0][name] != rule[name]\<close> for a token that exists.\<close>

fun differs :: "token \<Rightarrow> attribute \<Rightarrow> bool" where
  "differs t (AttrType v) = (tok_type t \<noteq> v)"
| "differs t (AttrMode v) = (tok_mode t \<noteq> v)"
| "differs t (AttrLine n) = (tok_line t \<noteq> n)"
| "differs t (AttrCol n) = (tok_col t \<noteq> n)"

text \<open>A rule: a string, an array of rules, an object of properties, or a function.\<close>

datatype rule = RStr string | RArr "rule list" | RObj "attribute list" | RFun matcher

text \<open>The loop of the matcher \<open>fregex\<close> returns, over the prepared rules.\<close>

fun fregex_loop :: "matcher list \<Rightarrow> nat \<Rightarrow> token list \<Rightarrow> (fault + used) option" where
  "fregex_loop [] i tokens = Some (Inr (JNum i))"
| "fregex_loop (rule # rest) i tokens =
     (case rule (drop i tokens) of
        None \<Rightarrow> None
      | Some (Inl e) \<Rightarrow> Some (Inl e)
      | Some (Inr used) \<Rightarrow>
          if used = JFalse then Some (Inr JFalse)
          else fregex_loop rest (i + count used) tokens)"

text \<open>
  The matcher of an object rule: \<open>for (let name in rule) if (tokens[0][name] != rule[name])
  return false; return 1\<close>. On the empty slice \<open>tokens[0]\<close> is \<open>undefined\<close> and the first
  property read throws.
\<close>

fun object_rule :: "attribute list \<Rightarrow> matcher" where
  "object_rule [] tokens = Some (Inr (JNum 1))"
| "object_rule (a # rest) tokens =
     (case tokens of
        [] \<Rightarrow> Some (Inl TypeError)
      | t # _ \<Rightarrow> if differs t a then Some (Inr JFalse) else object_rule rest tokens)"

text \<open>The matcher of a string rule: \<open>tokens => tokens[0] == rule\<close>.\<close>

definition string_rule :: "string \<Rightarrow> matcher" where
  "string_rule rule tokens =
     Some (Inr (case tokens of [] \<Rightarrow> JFalse
                | t # _ \<Rightarrow> if tok_text t = rule then JTrue else JFalse))"

text \<open>
  One iteration of the loop of \<open>prepare\<close>. For an array the result is \<open>fregex(rule)\<close>:
  called with the array as its single argument, \<open>prepare\<close> takes the array's elements as
  the rules, and the matcher runs them in sequence.
\<close>

fun prepare_rule :: "rule \<Rightarrow> matcher" where
  "prepare_rule (RStr s) = string_rule s"
| "prepare_rule (RArr rs) = (\<lambda>tokens. fregex_loop (map prepare_rule rs) 0 tokens)"
| "prepare_rule (RObj props) = object_rule props"
| "prepare_rule (RFun f) = f"

text \<open>\<open>if (Array.isArray(rules[0]) && rules.length === 1) rules = rules[0]\<close>\<close>

fun unwrap :: "rule list \<Rightarrow> rule list" where
  "unwrap [RArr inner] = inner"
| "unwrap rules = rules"

definition prepare :: "rule list \<Rightarrow> matcher list" where
  "prepare rules = map prepare_rule (unwrap rules)"

text \<open>\<open>fregex(...rules)\<close>: the argument list is \<open>rules\<close>.\<close>

definition fregex :: "rule list \<Rightarrow> matcher" where
  "fregex rules = (\<lambda>tokens. fregex_loop (prepare rules) 0 tokens)"

fun or_loop :: "matcher list \<Rightarrow> token list \<Rightarrow> (fault + used) option" where
  "or_loop [] tokens = Some (Inr JFalse)"
| "or_loop (rule # rest) tokens =
     (case rule tokens of
        None \<Rightarrow> None
      | Some (Inl e) \<Rightarrow> Some (Inl e)
      | Some (Inr used) \<Rightarrow> if used \<noteq> JFalse then Some (Inr used) else or_loop rest tokens)"

definition fregex_or :: "rule list \<Rightarrow> matcher" where
  "fregex_or rules = (\<lambda>tokens. or_loop (prepare rules) tokens)"

text \<open>\<open>fregex(rules)\<close> inside a combinator passes the argument array as one argument.\<close>

definition fregex_not :: "rule list \<Rightarrow> matcher" where
  "fregex_not rules =
     (let f = fregex [RArr rules]
      in (\<lambda>tokens. case f tokens of
           None \<Rightarrow> None
         | Some (Inl e) \<Rightarrow> Some (Inl e)
         | Some (Inr used) \<Rightarrow> Some (Inr (if used = JFalse then JNum 0 else JFalse))))"

text \<open>\<open>rule(tokens) > 0\<close>: \<open>true\<close> and every positive number.\<close>

fun nor_loop :: "matcher list \<Rightarrow> token list \<Rightarrow> (fault + used) option" where
  "nor_loop [] tokens = Some (Inr (JNum 1))"
| "nor_loop (rule # rest) tokens =
     (case rule tokens of
        None \<Rightarrow> None
      | Some (Inl e) \<Rightarrow> Some (Inl e)
      | Some (Inr used) \<Rightarrow> if count used > 0 then Some (Inr JFalse) else nor_loop rest tokens)"

definition fregex_nor :: "rule list \<Rightarrow> matcher" where
  "fregex_nor rules = (\<lambda>tokens. nor_loop (prepare rules) tokens)"

definition zeroOrOne :: "rule list \<Rightarrow> matcher" where
  "zeroOrOne rules =
     (let f = fregex [RArr rules]
      in (\<lambda>tokens. case f tokens of
           None \<Rightarrow> None
         | Some (Inl e) \<Rightarrow> Some (Inl e)
         | Some (Inr used) \<Rightarrow> Some (Inr (if used = JFalse then JNum 0 else used))))"

text \<open>
  The loop of \<open>xOrMore\<close>: \<open>for (let i=0; tokens.length; i++)\<close>, with \<open>total_used\<close> for
  the variable \<open>total\<close>. It runs for as long as tokens remain, so a sequence that matches
  without using a token keeps it running.
\<close>

partial_function (option) xOrMore_loop :: "matcher \<Rightarrow> nat \<Rightarrow> nat \<Rightarrow> nat \<Rightarrow> token list \<Rightarrow>
    (fault + used) option" where
  "xOrMore_loop f x i total_used tokens =
     (if tokens \<noteq> [] then
        Option.bind (f tokens)
          (\<lambda>r. case r of
             Inl e \<Rightarrow> Some (Inl e)
           | Inr used \<Rightarrow>
               if used = JFalse then Some (Inr (if i \<ge> x then JNum total_used else JFalse))
               else xOrMore_loop f x (i + 1) (total_used + count used) (drop (count used) tokens))
      else Some (Inr (JNum total_used)))"

declare xOrMore_loop.simps [code]

definition xOrMore :: "nat \<Rightarrow> rule list \<Rightarrow> matcher" where
  "xOrMore x rules = (let f = fregex [RArr rules] in (\<lambda>tokens. xOrMore_loop f x 0 0 tokens))"

definition zeroOrMore :: "rule list \<Rightarrow> matcher" where
  "zeroOrMore rules = xOrMore 0 rules"

definition oneOrMore :: "rule list \<Rightarrow> matcher" where
  "oneOrMore rules = xOrMore 1 rules"

text \<open>
  A match of \<open>matchAll\<close>: the slice \<open>haystack.slice(i, i + count)\<close> with its property
  \<open>index\<close>.
\<close>

record found =
  found_tokens :: "token list"
  found_index :: nat

text \<open>\<open>result.length < limit\<close>, where \<open>None\<close> is the default \<open>Infinity\<close>.\<close>

fun below :: "nat \<Rightarrow> nat option \<Rightarrow> bool" where
  "below n None = True"
| "below n (Some limit) = (n < limit)"

function matchAll_loop :: "matcher \<Rightarrow> token list \<Rightarrow> nat option \<Rightarrow> nat \<Rightarrow> found list \<Rightarrow>
    (fault + found list) option" where
  "matchAll_loop pattern haystack limit i result =
     (if i < length haystack \<and> below (length result) limit then
        (case pattern (drop i haystack) of
           None \<Rightarrow> None
         | Some (Inl e) \<Rightarrow> Some (Inl e)
         | Some (Inr cnt) \<Rightarrow>
             matchAll_loop pattern haystack limit (i + 1)
               (if cnt \<noteq> JFalse
                then result @ [\<lparr>found_tokens = take (count cnt) (drop i haystack), found_index = i\<rparr>]
                else result))
      else Some (Inr result))"
  by pat_completeness auto
termination
  by (relation "measure (\<lambda>(pattern, haystack, limit, i, result). length haystack - i)") auto

text \<open>
  The pattern of \<open>matchAll\<close>: an array is compiled by \<open>fregex(pattern)\<close>, anything else is
  called as it is, which for a string or an object throws.
\<close>

fun as_matcher :: "rule \<Rightarrow> matcher" where
  "as_matcher (RArr rs) = fregex [RArr rs]"
| "as_matcher (RFun f) = f"
| "as_matcher _ = (\<lambda>tokens. Some (Inl TypeError))"

definition matchAll :: "rule \<Rightarrow> token list \<Rightarrow> nat option \<Rightarrow> (fault + found list) option" where
  "matchAll pattern haystack limit = matchAll_loop (as_matcher pattern) haystack limit 0 []"

definition matchFirst :: "rule \<Rightarrow> token list \<Rightarrow> (fault + found option) option" where
  "matchFirst pattern haystack =
     (case matchAll pattern haystack (Some 1) of
        None \<Rightarrow> None
      | Some (Inl e) \<Rightarrow> Some (Inl e)
      | Some (Inr result) \<Rightarrow> Some (Inr (case result of [] \<Rightarrow> None | m # _ \<Rightarrow> Some m)))"

fun lookAhead_loop :: "matcher list \<Rightarrow> token list \<Rightarrow> (fault + used) option" where
  "lookAhead_loop [] tokens = Some (Inr (JNum 0))"
| "lookAhead_loop (rule # rest) tokens =
     (case rule tokens of
        None \<Rightarrow> None
      | Some (Inl e) \<Rightarrow> Some (Inl e)
      | Some (Inr used) \<Rightarrow> if used = JFalse then Some (Inr JFalse) else lookAhead_loop rest tokens)"

definition lookAhead :: "rule list \<Rightarrow> matcher" where
  "lookAhead rules = (\<lambda>tokens. lookAhead_loop (prepare rules) tokens)"

definition fregex_end :: matcher where
  "fregex_end tokens = Some (Inr (if tokens = [] then JNum 0 else JFalse))"

section \<open>The import patterns of the consumer (expect.js, rewriteImports)\<close>

definition ws0 :: matcher where
  "ws0 = zeroOrMore [RFun (fregex_or [RObj [AttrType ''whitespace''], RObj [AttrType ''ln''],
                                      RObj [AttrType ''comment'']])]"

definition isImport :: matcher where
  "isImport = fregex_or
     [RArr [RStr ''import'', RFun ws0, RObj [AttrType ''string'']],
      RArr [RStr ''import'', RFun ws0, RStr ''('', RFun ws0, RObj [AttrType ''string'']],
      RArr [RStr ''from'', RFun ws0, RObj [AttrType ''string'']]]"

section \<open>Notions used to state the properties\<close>

text \<open>
  A pattern whose every match is a prefix of the code ahead: what a string rule is by
  \<open>startsWith\<close>, what an anchored regular expression yields, and what a function
  documented to return "the string that matches" returns.
\<close>

fun prefix_pattern :: "'s pattern \<Rightarrow> bool" where
  "prefix_pattern (Str p) = True"
| "prefix_pattern (RegExp r) = (\<forall>current m. r current = Some m \<longrightarrow> prefix m current)"
| "prefix_pattern (Func f) =
     (\<forall>st current behind result m d st'.
        f st current behind result = (Some (m, d), st') \<longrightarrow> prefix m current)"

definition prefix_rules :: "'s rules \<Rightarrow> bool" where
  "prefix_rules rs = (\<forall>(ty, val) \<in> set rs. \<forall>p \<in> set val. prefix_pattern p)"

definition prefix_grammar :: "'s grammar \<Rightarrow> bool" where
  "prefix_grammar grammar = (\<forall>mode. prefix_rules (rules_of grammar mode))"

text \<open>
  The tokens \<open>new\<close>, added to \<open>result\<close> from the offset \<open>index\<close> on, end with a token that
  the rules of \<open>mode\<close> matched, at the offset where the tokens before it end and with
  those tokens parsed so far, together with the directive \<open>-1\<close>, leaving the state \<open>st'\<close>.
\<close>

definition ended_by_pop :: "'s grammar \<Rightarrow> string \<Rightarrow> string \<Rightarrow> token list \<Rightarrow> nat \<Rightarrow>
    token list \<Rightarrow> 's \<Rightarrow> bool" where
  "ended_by_pop grammar code mode result index new st' =
     (\<exists>pre st0 token type line col.
        new = pre @ [Token token type mode line col None] \<and> token \<noteq> [] \<and>
        index + length (concat (map tok_text pre)) < length code \<and>
        identify grammar st0 mode (drop (index + length (concat (map tok_text pre))) code)
          (take (index + length (concat (map tok_text pre))) code) (result @ pre)
          = (token, Pop, type, st'))"

text \<open>
  The line and the column of the character that follows the text \<open>before\<close>: one more
  than the newlines of \<open>before\<close>, and one more than the characters after its last newline
  (all of them when it has none).
\<close>

definition line_after :: "string \<Rightarrow> int" where
  "line_after before = 1 + int (count_newlines before)"

definition col_after :: "string \<Rightarrow> int" where
  "col_after before = 1 + int (length (takeWhile (\<lambda>c. c \<noteq> newline) (rev before)))"

text \<open>
  A token, standing at \<open>offset\<close> of \<open>code\<close>, carries the line and the column of that
  offset, and so do the tokens inside it, each at the offset where the ones before it
  end; the tokens behind an opening token that contains a newline are left open.
\<close>

fun accurate :: "string \<Rightarrow> nat \<Rightarrow> token \<Rightarrow> bool"
  and accurate_list :: "string \<Rightarrow> nat \<Rightarrow> token list \<Rightarrow> bool" where
  "accurate code offset (Token s ty m l c None) =
     (l = line_after (take offset code) \<and> c = col_after (take offset code))"
| "accurate code offset (Token s ty m l c (Some [])) =
     (l = line_after (take offset code) \<and> c = col_after (take offset code))"
| "accurate code offset (Token s ty m l c (Some (opener # sub))) =
     (l = line_after (take offset code) \<and> c = col_after (take offset code) \<and>
      accurate code offset opener \<and>
      (newline \<in> set (tok_text opener) \<or>
       accurate_list code (offset + length (tok_text opener)) sub))"
| "accurate_list code offset [] = True"
| "accurate_list code offset (t # ts) =
     (accurate code offset t \<and> accurate_list code (offset + length (tok_text t)) ts)"








section \<open>Example grammars and tokens\<close>

text \<open>A mode \<open>js\<close> with a word and an opening parenthesis that enters the mode \<open>b\<close>, which
  a closing parenthesis leaves.\<close>

definition paren_grammar :: "unit grammar" where
  "paren_grammar =
     [(''js'',
         [(''word'', [Str ''hello'']),
          (''open'', [Func (\<lambda>st code prev toks.
             (if prefix ''('' code then Some (''('', Mode ''b'') else None, st))])]),
      (''b'',
         [(''x'', [Str ''x'']),
          (''close'', [Func (\<lambda>st code prev toks.
             (if prefix '')'' code then Some ('')'', Pop) else None, st))])])]"

text \<open>The same with line ends as tokens of both modes.\<close>

definition lines_grammar :: "unit grammar" where
  "lines_grammar =
     [(''js'',
         [(''word'', [Str ''hello'']),
          (''ln'', [Str [newline]]),
          (''open'', [Func (\<lambda>st code prev toks.
             (if prefix ''('' code then Some (''('', Mode ''b'') else None, st))])]),
      (''b'',
         [(''x'', [Str ''x'']),
          (''ln'', [Str [newline]]),
          (''close'', [Func (\<lambda>st code prev toks.
             (if prefix '')'' code then Some ('')'', Pop) else None, st))])])]"

text \<open>A grammar whose first mode has a rule that leaves the mode.\<close>

definition pop_grammar :: "unit grammar" where
  "pop_grammar =
     [(''a'',
         [(''x'', [Func (\<lambda>st code prev toks.
             (if prefix ''x'' code then Some (''x'', Pop) else None, st))])])]"

text \<open>A grammar whose only rule is the regular expression \<open>/b/\<close>, which is not anchored.\<close>

definition unanchored_grammar :: "unit grammar" where
  "unanchored_grammar =
     [(''a'',
         [(''b'', [RegExp (\<lambda>current. if CHR ''b'' \<in> set current then Some ''b'' else None)])])]"

text \<open>A grammar whose opening token, a parenthesis and the line end after it, enters the
  mode \<open>b\<close>.\<close>

definition block_grammar :: "unit grammar" where
  "block_grammar =
     [(''a'',
         [(''open'', [Func (\<lambda>st code prev toks.
             (if prefix [CHR ''('', newline] code
              then Some ([CHR ''('', newline], Mode ''b'') else None, st))])]),
      (''b'', [(''x'', [Str ''x''])])]"

text \<open>The state an earlier call leaves that lexed the unterminated template \<open>`\<close>.\<close>

definition stale_state :: htmljs_state where
  "stale_state = \<lparr>braceDepth = 0, templateDepth = 1,
     allowHashTemplates = False, allowUnknownTagTokens = False\<rparr>"

definition word :: "string \<Rightarrow> token" where
  "word s = Token s ''identifier'' ''js'' 1 1 None"

section \<open>The tokenizer\<close>

lemma lex_loop_end:
  "\<not> index < length code \<Longrightarrow> lex_loop grammar st code mode result line col index = Some (Inr result, st)"
  by (subst lex_loop.simps) simp

lemma lex_loop_no_match:
  assumes "index < length code"
    and "identify grammar st mode (drop index code) (take index code) result = (token, matchType, type, st1)"
    and "token = []"
  shows "lex_loop grammar st code mode result line col index =
           Some (Inl (unknown_token mode line col (context_window code index)), st1)"
  using assms by (subst lex_loop.simps) simp

lemma lex_loop_pop:
  assumes "index < length code"
    and "identify grammar st mode (drop index code) (take index code) result = (token, Pop, type, st1)"
    and "token \<noteq> []"
  shows "lex_loop grammar st code mode result line col index =
           Some (Inr (result @ [Token token type mode line col None]), st1)"
  using assms by (subst lex_loop.simps) simp

lemma lex_loop_plain:
  assumes "index < length code"
    and "identify grammar st mode (drop index code) (take index code) result = (token, matchType, type, st1)"
    and "token \<noteq> []" and "matchType \<noteq> Pop" and "descend matchType = None"
  shows "lex_loop grammar st code mode result line col index =
           lex_loop grammar st1 code mode (result @ [Token token type mode line col None])
             (line + int (count_newlines token)) (next_col token col) (index + length token)"
proof -
  have "mode_of matchType mode = mode"
    using assms(4,5) by (cases matchType) (auto split: if_splits)
  then show ?thesis
    using assms by (subst lex_loop.simps) (simp add: Let_def)
qed

lemma lex_loop_descend:
  assumes "index < length code"
    and "identify grammar st mode (drop index code) (take index code) result = (token, matchType, type, st1)"
    and "token \<noteq> []" and "descend matchType = Some m"
  shows "lex_loop grammar st code mode result line col index =
           (case lex_loop grammar st1 code m [] line (col + int (length token)) (index + length token) of
              None \<Rightarrow> None
            | Some (Inl e, st2) \<Rightarrow> Some (Inl e, st2)
            | Some (Inr sub, st2) \<Rightarrow>
                lex_loop grammar st2 code mode
                  (result @ [Token (token @ concat (map tok_text sub)) type mode line col
                               (Some (Token token type m line col None # sub))])
                  (line + int (count_newlines (token @ concat (map tok_text sub))))
                  (next_col (token @ concat (map tok_text sub)) col)
                  (index + length (token @ concat (map tok_text sub))))"
proof -
  have m: "matchType = Mode m" "m \<noteq> []"
    using assms(4) by (cases matchType; auto split: if_splits)+
  show ?thesis
    using assms m
    by (subst lex_loop.simps) (simp add: Let_def split: option.splits sum.splits prod.splits)
qed

lemma lex_loop_terminates:
  "\<exists>r. lex_loop grammar st code mode result line col index = Some r"
proof (induction "length code - index" arbitrary: st mode result line col index rule: less_induct)
  case less
  show ?case
  proof (cases "index < length code")
    case False
    then show ?thesis by (simp add: lex_loop_end)
  next
    case True
    obtain token matchType type st1 where id:
      "identify grammar st mode (drop index code) (take index code) result = (token, matchType, type, st1)"
      by (metis prod_cases4)
    show ?thesis
    proof (cases "token = []")
      case True
      with \<open>index < length code\<close> id show ?thesis by (simp add: lex_loop_no_match)
    next
      case ne: False
      show ?thesis
      proof (cases "matchType = Pop")
        case True
        with \<open>index < length code\<close> id ne show ?thesis by (simp add: lex_loop_pop)
      next
        case np: False
        show ?thesis
        proof (cases "descend matchType")
          case None
          have "length code - (index + length token) < length code - index"
            using ne \<open>index < length code\<close> by (cases token) auto
          from less[OF this] show ?thesis
            using lex_loop_plain[OF \<open>index < length code\<close> id ne np None] by simp
        next
          case (Some m)
          have d: "length code - (index + length token) < length code - index"
            using ne \<open>index < length code\<close> by (cases token) auto
          from less[OF d] obtain r where
            r: "lex_loop grammar st1 code m [] line (col + int (length token)) (index + length token) = Some r"
            by blast
          obtain v st2 where rv: "r = (v, st2)" by (cases r)
          show ?thesis
          proof (cases v)
            case (Inl e)
            then show ?thesis
              using lex_loop_descend[OF \<open>index < length code\<close> id ne Some] r rv by simp
          next
            case (Inr sub)
            have "length code - (index + length (token @ concat (map tok_text sub))) < length code - index"
              using ne \<open>index < length code\<close> by (cases token) auto
            from less[OF this] show ?thesis
              using lex_loop_descend[OF \<open>index < length code\<close> id ne Some] r rv Inr by simp
          qed
        qed
      qed
    qed
  qed
qed

lemma match_pattern_prefix:
  assumes "prefix_pattern p" and "token = [] \<or> prefix token current"
    and "match_pattern p current behind result (token, matchType, st) = (token', matchType', st')"
  shows "token' = [] \<or> prefix token' current"
proof (cases p)
  case (Str x)
  with assms show ?thesis by (auto split: if_splits)
next
  case (RegExp r)
  with assms show ?thesis by (auto split: option.splits)
next
  case (Func f)
  show ?thesis
  proof (cases "f st current behind result")
    case (Pair o1 s1)
    show ?thesis
    proof (cases o1)
      case None
      with Pair Func assms(3) show ?thesis by simp
    next
      case (Some md)
      obtain m d where md: "md = (m, d)" by (cases md)
      have "f st current behind result = (Some (m, d), s1)"
        using Pair Some md by simp
      moreover have "\<forall>st current behind result m d st'.
          f st current behind result = (Some (m, d), st') \<longrightarrow> prefix m current"
        using assms(1) Func by simp
      ultimately have "prefix m current" by blast
      moreover have "token' = m" using assms(3) Func Pair Some md by simp
      ultimately show ?thesis by simp
    qed
  qed
qed

lemma scan_value_prefix:
  assumes "\<forall>p \<in> set ps. prefix_pattern p" and "token = [] \<or> prefix token current"
    and "scan_value ps current behind result (token, matchType, st) = (token', matchType', st')"
  shows "token' = [] \<or> prefix token' current"
  using assms
proof (induction ps arbitrary: token matchType st)
  case Nil
  then show ?case by auto
next
  case (Cons p ps)
  obtain t1 m1 s1 where mp: "match_pattern p current behind result (token, matchType, st) = (t1, m1, s1)"
    by (metis prod_cases3)
  have t1: "t1 = [] \<or> prefix t1 current"
    using match_pattern_prefix[OF _ Cons.prems(2) mp] Cons.prems(1) by simp
  show ?case
  proof (cases "t1 = []")
    case True
    with Cons.prems(3) mp have "scan_value ps current behind result (t1, m1, s1) = (token', matchType', st')"
      by simp
    from Cons.IH[OF _ t1 this] Cons.prems(1) show ?thesis by simp
  next
    case False
    with Cons.prems(3) mp have "token' = t1" by simp
    with t1 show ?thesis by simp
  qed
qed

lemma scan_rules_prefix:
  assumes "prefix_rules rs" and "token = [] \<or> prefix token current"
    and "scan_rules rs current behind result (token, matchType, type, st) = (token', matchType', type', st')"
  shows "token' = [] \<or> prefix token' current"
  using assms
proof (induction rs arbitrary: token matchType type st)
  case Nil
  then show ?case by auto
next
  case (Cons r rs)
  obtain ty val where r: "r = (ty, val)" by (cases r)
  obtain t1 m1 s1 where sv: "scan_value val current behind result (token, matchType, st) = (t1, m1, s1)"
    by (metis prod_cases3)
  have pv: "\<forall>p \<in> set val. prefix_pattern p" and pr: "prefix_rules rs"
    using Cons.prems(1) r by (auto simp: prefix_rules_def)
  have t1: "t1 = [] \<or> prefix t1 current"
    using scan_value_prefix[OF pv Cons.prems(2) sv] .
  show ?case
  proof (cases "t1 = []")
    case True
    with Cons.prems(3) sv r have "scan_rules rs current behind result (t1, m1, ty, s1) = (token', matchType', type', st')"
      by simp
    from Cons.IH[OF pr t1 this] show ?thesis .
  next
    case False
    with Cons.prems(3) sv r have "token' = t1" by simp
    with t1 show ?thesis by simp
  qed
qed

lemma identify_prefix:
  assumes "prefix_grammar grammar"
    and "identify grammar st mode current behind result = (token, matchType, type, st1)"
  shows "token = [] \<or> prefix token current"
  using scan_rules_prefix[OF _ _ assms(2)[unfolded identify_def]] assms(1)
  by (simp add: prefix_grammar_def)

lemma prefix_drop_append:
  assumes "prefix a (drop i s)" and "prefix b (drop (i + length a) s)"
  shows "prefix (a @ b) (drop i s)"
proof -
  from assms(1) obtain r where r: "drop i s = a @ r" by (auto simp: prefix_def)
  have "drop (i + length a) s = drop (length a) (drop i s)" by (simp add: add.commute)
  with r have "drop (i + length a) s = r" by simp
  with assms(2) r show ?thesis by simp
qed

lemma eq_drop_append:
  assumes "prefix a (drop i s)" and "b = drop (i + length a) s"
  shows "a @ b = drop i s"
proof -
  from assms(1) obtain r where r: "drop i s = a @ r" by (auto simp: prefix_def)
  have "drop (i + length a) s = drop (length a) (drop i s)" by (simp add: add.commute)
  with r assms(2) show ?thesis by simp
qed

lemma prefix_drop_bound:
  assumes "prefix a (drop i s)" and "i \<le> length s"
  shows "i + length a \<le> length s"
proof -
  from assms(1) have "length a \<le> length (drop i s)" by (rule prefix_length_le)
  with assms(2) show ?thesis by simp
qed

lemma ended_by_pop_step:
  assumes "ended_by_pop grammar code mode (result @ [t]) (index + length (tok_text t)) new st'"
  shows "ended_by_pop grammar code mode result index (t # new) st'"
proof -
  from assms obtain pre st0 token type line col where
    p: "new = pre @ [Token token type mode line col None]" "token \<noteq> []"
      "index + length (tok_text t) + length (concat (map tok_text pre)) < length code"
      "identify grammar st0 mode
         (drop (index + length (tok_text t) + length (concat (map tok_text pre))) code)
         (take (index + length (tok_text t) + length (concat (map tok_text pre))) code)
         ((result @ [t]) @ pre) = (token, Pop, type, st')"
    unfolding ended_by_pop_def by blast
  have o: "index + length (concat (map tok_text (t # pre))) =
           index + length (tok_text t) + length (concat (map tok_text pre))"
    by simp
  have "t # new = (t # pre) @ [Token token type mode line col None] \<and> token \<noteq> [] \<and>
        index + length (concat (map tok_text (t # pre))) < length code \<and>
        identify grammar st0 mode (drop (index + length (concat (map tok_text (t # pre)))) code)
          (take (index + length (concat (map tok_text (t # pre)))) code) (result @ (t # pre))
          = (token, Pop, type, st')"
    unfolding o using p by simp
  then show ?thesis unfolding ended_by_pop_def by blast
qed

lemma lex_loop_consumes:
  assumes "prefix_grammar grammar"
  shows "lex_loop grammar st code mode result line col index = Some (Inr toks, st') \<Longrightarrow>
         index \<le> length code \<Longrightarrow>
         \<exists>new. toks = result @ new \<and> prefix (concat (map tok_text new)) (drop index code) \<and>
           (concat (map tok_text new) = drop index code \<or> ended_by_pop grammar code mode result index new st')"
proof (induction "length code - index" arbitrary: st mode result line col index toks st' rule: less_induct)
  case less
  note run = less.prems(1) and bound = less.prems(2)
  show ?case
  proof (cases "index < length code")
    case False
    with run bound show ?thesis by (simp add: lex_loop_end)
  next
    case lt: True
    obtain token matchType type st1 where id:
      "identify grammar st mode (drop index code) (take index code) result = (token, matchType, type, st1)"
      by (metis prod_cases4)
    have tp: "token = [] \<or> prefix token (drop index code)"
      using identify_prefix[OF assms id] .
    show ?thesis
    proof (cases "token = []")
      case True
      with lt id run show ?thesis by (simp add: lex_loop_no_match)
    next
      case ne: False
      with tp have pt: "prefix token (drop index code)" by simp
      have b1: "index + length token \<le> length code"
        using prefix_drop_bound[OF pt bound] .
      have d1: "length code - (index + length token) < length code - index"
        using ne lt by (cases token) auto
      show ?thesis
      proof (cases "matchType = Pop")
        case True
        let ?t = "Token token type mode line col None"
        have res: "toks = result @ [?t]" and fin: "st1 = st'"
          using lex_loop_pop[OF lt id[unfolded True] ne] run by simp_all
        have "[?t] = [] @ [?t] \<and> token \<noteq> [] \<and>
              index + length (concat (map tok_text ([]::token list))) < length code \<and>
              identify grammar st mode (drop (index + length (concat (map tok_text ([]::token list)))) code)
                (take (index + length (concat (map tok_text ([]::token list)))) code) (result @ [])
                = (token, Pop, type, st')"
          using lt ne id True fin by simp
        then have "ended_by_pop grammar code mode result index [?t] st'"
          unfolding ended_by_pop_def by blast
        with res pt show ?thesis by simp
      next
        case np: False
        show ?thesis
        proof (cases "descend matchType")
          case None
          let ?t = "Token token type mode line col None"
          have "lex_loop grammar st1 code mode (result @ [?t])
             (line + int (count_newlines token)) (next_col token col) (index + length token)
              = Some (Inr toks, st')"
            using lex_loop_plain[OF lt id ne np None] run by simp
          from less.hyps[OF d1 this b1] obtain new where
            new: "toks = (result @ [?t]) @ new"
              "prefix (concat (map tok_text new)) (drop (index + length token) code)"
              "concat (map tok_text new) = drop (index + length token) code \<or>
               ended_by_pop grammar code mode (result @ [?t]) (index + length token) new st'"
            by blast
          have "toks = result @ (?t # new)" using new(1) by simp
          moreover have "prefix (concat (map tok_text (?t # new))) (drop index code)"
            using prefix_drop_append[OF pt new(2)] by simp
          moreover have "concat (map tok_text (?t # new)) = drop index code \<or>
              ended_by_pop grammar code mode result index (?t # new) st'"
            using new(3) eq_drop_append[OF pt] ended_by_pop_step[of grammar code mode result ?t index new st']
            by auto
          ultimately show ?thesis by blast
        next
          case (Some m)
          note unfold = lex_loop_descend[OF lt id ne Some]
          obtain r where r: "lex_loop grammar st1 code m [] line (col + int (length token)) (index + length token) = Some r"
            using lex_loop_terminates[of grammar st1 code m "[]" line "col + int (length token)" "index + length token"]
            by blast
          obtain v st2 where rv: "r = (v, st2)" by (cases r)
          show ?thesis
          proof (cases v)
            case (Inl e)
            with unfold r rv run show ?thesis by simp
          next
            case (Inr sub)
            let ?text = "token @ concat (map tok_text sub)"
            let ?t = "Token ?text type mode line col (Some (Token token type m line col None # sub))"
            from less.hyps[OF d1 _ b1] r rv Inr obtain new1 where
              n1: "sub = [] @ new1" "prefix (concat (map tok_text new1)) (drop (index + length token) code)"
              by blast
            have pc: "prefix ?text (drop index code)"
              using prefix_drop_append[OF pt] n1 by simp
            have b2: "index + length ?text \<le> length code"
              using prefix_drop_bound[OF pc bound] .
            have d2: "length code - (index + length ?text) < length code - index"
              using ne lt by (cases token) auto
            have "lex_loop grammar st2 code mode (result @ [?t])
                   (line + int (count_newlines ?text)) (next_col ?text col) (index + length ?text)
                  = Some (Inr toks, st')"
              using unfold r rv Inr run by simp
            from less.hyps[OF d2 this b2] obtain new where
              new: "toks = (result @ [?t]) @ new"
                "prefix (concat (map tok_text new)) (drop (index + length ?text) code)"
                "concat (map tok_text new) = drop (index + length ?text) code \<or>
                 ended_by_pop grammar code mode (result @ [?t]) (index + length ?text) new st'"
              by blast
            have "toks = result @ (?t # new)" using new(1) by simp
            moreover have "prefix (concat (map tok_text (?t # new))) (drop index code)"
              using prefix_drop_append[OF pc new(2)] by simp
            moreover have "concat (map tok_text (?t # new)) = drop index code \<or>
                ended_by_pop grammar code mode result index (?t # new) st'"
              using new(3) eq_drop_append[OF pc] ended_by_pop_step[of grammar code mode result ?t index new st']
              by auto
            ultimately show ?thesis by blast
          qed
        qed
      qed
    qed
  qed
qed





lemma lex_loop_errors:
  "lex_loop grammar st code mode result line col index = Some (Inl e, st') \<Longrightarrow>
   \<exists>st0 mode0 result0 line0 col0 index0. index0 < length code \<and>
      fst (identify grammar st0 mode0 (drop index0 code) (take index0 code) result0) = [] \<and>
      e = unknown_token mode0 line0 col0 (context_window code index0)"
proof (induction "length code - index" arbitrary: st mode result line col index rule: less_induct)
  case less
  note run = less.prems(1)
  show ?case
  proof (cases "index < length code")
    case False
    with run show ?thesis by (simp add: lex_loop_end)
  next
    case lt: True
    obtain token matchType type st1 where id:
      "identify grammar st mode (drop index code) (take index code) result = (token, matchType, type, st1)"
      by (metis prod_cases4)
    show ?thesis
    proof (cases "token = []")
      case True
      have "e = unknown_token mode line col (context_window code index)"
        using lex_loop_no_match[OF lt id True] run by simp
      moreover have "fst (identify grammar st mode (drop index code) (take index code) result) = []"
        using id True by simp
      ultimately show ?thesis using lt by blast
    next
      case ne: False
      have d1: "length code - (index + length token) < length code - index"
        using ne lt by (cases token) auto
      show ?thesis
      proof (cases "matchType = Pop")
        case True
        with lex_loop_pop[OF lt id[unfolded True] ne] run show ?thesis by simp
      next
        case np: False
        show ?thesis
        proof (cases "descend matchType")
          case None
          from less.hyps[OF d1] lex_loop_plain[OF lt id ne np None] run
          show ?thesis by simp
        next
          case (Some m)
          note unfold = lex_loop_descend[OF lt id ne Some]
          obtain r where r: "lex_loop grammar st1 code m [] line (col + int (length token)) (index + length token) = Some r"
            using lex_loop_terminates[of grammar st1 code m "[]" line "col + int (length token)" "index + length token"]
            by blast
          obtain v st2 where rv: "r = (v, st2)" by (cases r)
          show ?thesis
          proof (cases v)
            case (Inl e2)
            with unfold r rv run have "e2 = e" and "st2 = st'" by simp_all
            with less.hyps[OF d1] r rv Inl show ?thesis by simp
          next
            case (Inr sub)
            have d2: "length code - (index + length (token @ concat (map tok_text sub))) < length code - index"
              using ne lt by (cases token) auto
            from less.hyps[OF d2] unfold r rv Inr run show ?thesis by simp
          qed
        qed
      qed
    qed
  qed
qed


subsection \<open>C9: the tokenizer terminates\<close>

text \<open>
  C9. For every grammar of strings, regular expressions and (total) functions, \<open>lex\<close>
  returns on every input, by returning a token sequence or by throwing the unknown-token
  error for an offset of the input: the value is never \<open>None\<close>. A match is accepted only
  when it is a non-empty token, so the offset grows with every iteration and every
  descent starts further on, which is the measure of the proof.
\<close>

theorem lex_terminates:
  "(\<exists>toks st'. lex grammar st code mode result line col index = Some (Inr toks, st')) \<or>
   (\<exists>mode0 line0 col0 index0 st'. index0 < length code \<and>
      lex grammar st code mode result line col index =
        Some (Inl (unknown_token mode0 line0 col0 (context_window code index0)), st'))"
proof -
  obtain r where r: "lex_loop grammar st code (start_mode grammar mode) result line col index = Some r"
    using lex_loop_terminates[of grammar st code "start_mode grammar mode" result line col index]
    by blast
  obtain v st' where rv: "r = (v, st')" by (cases r)
  show ?thesis
  proof (cases v)
    case (Inr toks)
    with r rv show ?thesis by (simp add: lex_def)
  next
    case (Inl e)
    with r rv have run: "lex_loop grammar st code (start_mode grammar mode) result line col index
        = Some (Inl e, st')"
      by simp
    from lex_loop_errors[OF run] obtain mode0 line0 col0 index0 where
      "index0 < length code" "e = unknown_token mode0 line0 col0 (context_window code index0)"
      by blast
    with run show ?thesis unfolding lex_def by blast
  qed
qed

subsection \<open>C5: the end of the input inside a sub-mode\<close>

text \<open>
  C5. When \<open>lex\<close> is at the end of the input, in whatever mode (so also in a pushed mode
  that no rule has left yet), it returns the tokens accumulated in that mode as they are
  and throws nothing; and the invocation that pushed the mode wraps what the sub-mode
  returned, with the opening token in front, into one token and, the input being used
  up, returns as well.
\<close>

theorem unterminated_mode_returns:
  "(length code \<le> index \<longrightarrow>
      lex grammar st code mode result line col index = Some (Inr result, st)) \<and>
   (index < length code \<and> token \<noteq> [] \<and> m \<noteq> [] \<and>
    identify grammar st (start_mode grammar mode) (drop index code) (take index code) result
      = (token, Mode m, type, st1) \<and>
    lex grammar st1 code m [] line (col + int (length token)) (index + length token)
      = Some (Inr sub, st2) \<and>
    length code \<le> index + length (token @ concat (map tok_text sub)) \<longrightarrow>
      lex grammar st code mode result line col index =
        Some (Inr (result @
                [Token (token @ concat (map tok_text sub)) type (start_mode grammar mode) line col
                   (Some (Token token type m line col None # sub))]), st2))"
proof (intro conjI impI)
  assume "length code \<le> index"
  then show "lex grammar st code mode result line col index = Some (Inr result, st)"
    by (simp add: lex_def lex_loop_end)
next
  assume a: "index < length code \<and> token \<noteq> [] \<and> m \<noteq> [] \<and>
    identify grammar st (start_mode grammar mode) (drop index code) (take index code) result
      = (token, Mode m, type, st1) \<and>
    lex grammar st1 code m [] line (col + int (length token)) (index + length token)
      = Some (Inr sub, st2) \<and>
    length code \<le> index + length (token @ concat (map tok_text sub))"
  then have lt: "index < length code" and ne: "token \<noteq> []" and mne: "m \<noteq> []"
    and id: "identify grammar st (start_mode grammar mode) (drop index code) (take index code) result
      = (token, Mode m, type, st1)"
    and run: "lex grammar st1 code m [] line (col + int (length token)) (index + length token)
      = Some (Inr sub, st2)"
    and fin: "\<not> index + length (token @ concat (map tok_text sub)) < length code"
    by simp_all
  have m: "descend (Mode m) = Some m" using mne by simp
  have sub: "lex_loop grammar st1 code m [] line (col + int (length token)) (index + length token)
      = Some (Inr sub, st2)"
    using run mne by (simp add: lex_def start_mode_def)
  show "lex grammar st code mode result line col index =
        Some (Inr (result @
                [Token (token @ concat (map tok_text sub)) type (start_mode grammar mode) line col
                   (Some (Token token type m line col None # sub))]), st2)"
    unfolding lex_def
    by (simp only: lex_loop_descend[OF lt id ne m] sub option.case prod.case sum.case
          lex_loop_end[OF fin])
qed

theorem unterminated_mode_returns_witness:
  "length ''(xx'' \<le> 3 \<and>
   lex paren_grammar () ''(xx'' ''b''
     [Token ''x'' ''x'' ''b'' 1 2 None, Token ''x'' ''x'' ''b'' 1 3 None] 1 4 3 =
     Some (Inr [Token ''x'' ''x'' ''b'' 1 2 None, Token ''x'' ''x'' ''b'' 1 3 None], ()) \<and>
   identify paren_grammar () (start_mode paren_grammar []) (drop 0 ''(xx'') (take 0 ''(xx'') []
     = (''('', Mode ''b'', ''open'', ()) \<and>
   lex paren_grammar () ''(xx'' ''b'' [] 1 (1 + int (length ''('')) (0 + length ''('') =
     Some (Inr [Token ''x'' ''x'' ''b'' 1 2 None, Token ''x'' ''x'' ''b'' 1 3 None], ()) \<and>
   lex paren_grammar () ''(xx'' [] [] 1 1 0 =
     Some (Inr [Token ''(xx'' ''open'' ''js'' 1 1
                  (Some [Token ''('' ''open'' ''b'' 1 1 None,
                         Token ''x'' ''x'' ''b'' 1 2 None,
                         Token ''x'' ''x'' ''b'' 1 3 None])], ())"
proof -
  let ?sub = "[Token ''x'' ''x'' ''b'' 1 2 None, Token ''x'' ''x'' ''b'' 1 3 None]"
  have e: "length ''(xx'' \<le> 3" by simp
  have id: "identify paren_grammar () (start_mode paren_grammar []) (drop 0 ''(xx'') (take 0 ''(xx'') []
     = (''('', Mode ''b'', ''open'', ())"
    by code_simp
  have nested: "lex paren_grammar () ''(xx'' ''b'' [] 1 (1 + int (length ''('')) (0 + length ''('') =
     Some (Inr ?sub, ())"
    by code_simp
  have s: "start_mode paren_grammar [] = ''js''"
    by (simp add: start_mode_def first_mode_def paren_grammar_def)
  have first: "lex paren_grammar () ''(xx'' ''b'' ?sub 1 4 3 = Some (Inr ?sub, ())"
    using unterminated_mode_returns[of "''(xx''" 3 paren_grammar "()" "''b''" ?sub 1 4] e
    by blast
  have "lex paren_grammar () ''(xx'' [] [] 1 1 0 =
     Some (Inr ([] @ [Token (''('' @ concat (map tok_text ?sub)) ''open''
                   (start_mode paren_grammar []) 1 1
                   (Some (Token ''('' ''open'' ''b'' 1 1 None # ?sub))]), ())"
    using unterminated_mode_returns[of "''(xx''" 0 paren_grammar "()" "[]" "[]" 1 1
        "''(''" "''b''" "''open''" "()" ?sub "()"] id nested
    by simp
  then have whole: "lex paren_grammar () ''(xx'' [] [] 1 1 0 =
     Some (Inr [Token ''(xx'' ''open'' ''js'' 1 1
                  (Some [Token ''('' ''open'' ''b'' 1 1 None,
                         Token ''x'' ''x'' ''b'' 1 2 None,
                         Token ''x'' ''x'' ''b'' 1 3 None])], ())"
    by (simp add: s)
  show ?thesis
    using e first id nested whole by blast
qed

subsection \<open>C8: the unknown-token error\<close>





subsection \<open>C1: the texts of the tokens against the input\<close>

text \<open>
  C1, as stated, fails in two ways. A rule of the first mode that returns the directive
  \<open>-1\<close> makes the top-level call return at once, and the rest of the input is in no
  token: on \<open>xx\<close> the grammar \<open>pop_grammar\<close> yields the single token \<open>x\<close>. And \<open>lex\<close>
  advances by the length of whatever a rule matched: on \<open>ab\<close> the regular expression
  \<open>/b/\<close> yields the token \<open>b\<close> twice.
\<close>

theorem round_trip_counterexample:
  "lex pop_grammar () ''xx'' [] [] 1 1 0 = Some (Inr [Token ''x'' ''x'' ''a'' 1 1 None], ()) \<and>
   concat (map tok_text [Token ''x'' ''x'' ''a'' 1 1 None]) \<noteq> ''xx'' \<and>
   lex unanchored_grammar () ''ab'' [] [] 1 1 0 =
     Some (Inr [Token ''b'' ''b'' ''a'' 1 1 None, Token ''b'' ''b'' ''a'' 1 2 None], ()) \<and>
   concat (map tok_text [Token ''b'' ''b'' ''a'' 1 1 None, Token ''b'' ''b'' ''a'' 1 2 None]) \<noteq> ''ab''"
proof (intro conjI)
  show "lex pop_grammar () ''xx'' [] [] 1 1 0 = Some (Inr [Token ''x'' ''x'' ''a'' 1 1 None], ())"
    by code_simp
  show "concat (map tok_text [Token ''x'' ''x'' ''a'' 1 1 None]) \<noteq> ''xx''"
    by simp
  show "lex unanchored_grammar () ''ab'' [] [] 1 1 0 =
     Some (Inr [Token ''b'' ''b'' ''a'' 1 1 None, Token ''b'' ''b'' ''a'' 1 2 None], ())"
    by code_simp
  show "concat (map tok_text [Token ''b'' ''b'' ''a'' 1 1 None, Token ''b'' ''b'' ''a'' 1 2 None]) \<noteq> ''ab''"
    by simp
qed

text \<open>
  C1, amended. For every grammar whose matches are prefixes of the code ahead and every
  input on which \<open>lex\<close>, started at offset 0 with no tokens, returns a token sequence: the
  concatenation of the texts of the top-level tokens is a prefix of the input, and it is
  the whole input unless the last token is one that a rule of the starting mode matched
  together with the directive \<open>-1\<close>.
\<close>

theorem round_trip_amended:
  assumes "prefix_grammar grammar"
    and "lex grammar st code mode [] line col 0 = Some (Inr toks, st')"
  shows "prefix (concat (map tok_text toks)) code \<and>
         (concat (map tok_text toks) = code \<or>
          ended_by_pop grammar code (start_mode grammar mode) [] 0 toks st')"
  using lex_loop_consumes[OF assms(1) assms(2)[unfolded lex_def]] by auto

lemma prefix_grammar_paren: "prefix_grammar paren_grammar"
  unfolding prefix_grammar_def prefix_rules_def rules_of_def paren_grammar_def
  by (auto split: if_splits)

theorem round_trip_amended_witness:
  "prefix_grammar paren_grammar \<and>
   lex paren_grammar () ''hello(xx)hello'' [] [] 1 1 0 =
     Some (Inr [Token ''hello'' ''word'' ''js'' 1 1 None,
                Token ''(xx)'' ''open'' ''js'' 1 6
                  (Some [Token ''('' ''open'' ''b'' 1 6 None,
                         Token ''x'' ''x'' ''b'' 1 7 None,
                         Token ''x'' ''x'' ''b'' 1 8 None,
                         Token '')'' ''close'' ''b'' 1 9 None]),
                Token ''hello'' ''word'' ''js'' 1 10 None], ()) \<and>
   prefix (''hello'' @ ''(xx)'' @ ''hello'') ''hello(xx)hello'' \<and>
   (''hello'' @ ''(xx)'' @ ''hello'' = ''hello(xx)hello'' \<or>
    ended_by_pop paren_grammar ''hello(xx)hello'' ''js'' [] 0
      [Token ''hello'' ''word'' ''js'' 1 1 None,
       Token ''(xx)'' ''open'' ''js'' 1 6
         (Some [Token ''('' ''open'' ''b'' 1 6 None,
                Token ''x'' ''x'' ''b'' 1 7 None,
                Token ''x'' ''x'' ''b'' 1 8 None,
                Token '')'' ''close'' ''b'' 1 9 None]),
       Token ''hello'' ''word'' ''js'' 1 10 None] ())"
proof -
  have run: "lex paren_grammar () ''hello(xx)hello'' [] [] 1 1 0 =
     Some (Inr [Token ''hello'' ''word'' ''js'' 1 1 None,
                Token ''(xx)'' ''open'' ''js'' 1 6
                  (Some [Token ''('' ''open'' ''b'' 1 6 None,
                         Token ''x'' ''x'' ''b'' 1 7 None,
                         Token ''x'' ''x'' ''b'' 1 8 None,
                         Token '')'' ''close'' ''b'' 1 9 None]),
                Token ''hello'' ''word'' ''js'' 1 10 None], ())"
    by code_simp
  have s: "start_mode paren_grammar [] = ''js''"
    by (simp add: start_mode_def first_mode_def paren_grammar_def)
  from round_trip_amended[OF prefix_grammar_paren run] s prefix_grammar_paren run
  show ?thesis by simp
qed

subsection \<open>C6: line and column of the tokens\<close>

lemma line_after_append:
  "line_after (before @ t) = line_after before + int (count_newlines t)"
  by (simp add: line_after_def count_newlines_def)

lemma col_after_append:
  "col_after (before @ t) = next_col t (col_after before)"
proof (cases "newline \<in> set t")
  case True
  then have "newline \<in> set (rev t)" by simp
  then have tw: "takeWhile (\<lambda>c. c \<noteq> newline) (rev t @ rev before) = takeWhile (\<lambda>c. c \<noteq> newline) (rev t)"
    by (simp add: takeWhile_append1)
  have "length (takeWhile (\<lambda>c. c \<noteq> newline) xs) < length xs" if "newline \<in> set xs" for xs
    using that by (induction xs) auto
  from this[OF \<open>newline \<in> set (rev t)\<close>]
  have lt: "length (takeWhile (\<lambda>c. c \<noteq> newline) (rev t)) < length t" by simp
  show ?thesis
    using True tw lt by (simp add: col_after_def next_col_def lastIndexOf_def Let_def)
next
  case False
  then have "takeWhile (\<lambda>c. c \<noteq> newline) (rev t @ rev before) =
      rev t @ takeWhile (\<lambda>c. c \<noteq> newline) (rev before)"
    by (intro takeWhile_append2) auto
  with False show ?thesis
    by (simp add: col_after_def next_col_def lastIndexOf_def Let_def)
qed

lemma take_add_prefix:
  assumes "prefix t (drop i s)"
  shows "take (i + length t) s = take i s @ t"
proof -
  from assms obtain r where r: "drop i s = t @ r" by (auto simp: prefix_def)
  have "take (i + length t) s = take i s @ take (length t) (drop i s)"
    by (simp add: take_add)
  with r show ?thesis by simp
qed

lemma next_col_single_line:
  "newline \<notin> set t \<Longrightarrow> next_col t c = c + int (length t)"
  by (simp add: next_col_def lastIndexOf_def)

lemma count_newlines_single_line:
  "newline \<notin> set t \<Longrightarrow> count_newlines t = 0"
  by (auto simp: count_newlines_def filter_empty_conv)

lemma lex_loop_accurate:
  assumes "prefix_grammar grammar"
  shows "lex_loop grammar st code mode result line col index = Some (Inr toks, st') \<Longrightarrow>
         index \<le> length code \<Longrightarrow>
         line = line_after (take index code) \<Longrightarrow> col = col_after (take index code) \<Longrightarrow>
         \<exists>new. toks = result @ new \<and> accurate_list code index new"
proof (induction "length code - index" arbitrary: st mode result line col index toks st' rule: less_induct)
  case less
  note run = less.prems(1) and bound = less.prems(2) and ln = less.prems(3) and cl = less.prems(4)
  show ?case
  proof (cases "index < length code")
    case False
    with run show ?thesis by (simp add: lex_loop_end)
  next
    case lt: True
    obtain token matchType type st1 where id:
      "identify grammar st mode (drop index code) (take index code) result = (token, matchType, type, st1)"
      by (metis prod_cases4)
    have tp: "token = [] \<or> prefix token (drop index code)"
      using identify_prefix[OF assms id] .
    show ?thesis
    proof (cases "token = []")
      case True
      with lt id run show ?thesis by (simp add: lex_loop_no_match)
    next
      case ne: False
      with tp have pt: "prefix token (drop index code)" by simp
      have b1: "index + length token \<le> length code"
        using prefix_drop_bound[OF pt bound] .
      have d1: "length code - (index + length token) < length code - index"
        using ne lt by (cases token) auto
      have t1: "take (index + length token) code = take index code @ token"
        using take_add_prefix[OF pt] .
      show ?thesis
      proof (cases "matchType = Pop")
        case True
        have "toks = result @ [Token token type mode line col None]"
          using lex_loop_pop[OF lt id[unfolded True] ne] run by simp
        moreover have "accurate_list code index [Token token type mode line col None]"
          using ln cl by simp
        ultimately show ?thesis by blast
      next
        case np: False
        show ?thesis
        proof (cases "descend matchType")
          case None
          let ?t = "Token token type mode line col None"
          have "lex_loop grammar st1 code mode (result @ [?t])
             (line + int (count_newlines token)) (next_col token col) (index + length token)
              = Some (Inr toks, st')"
            using lex_loop_plain[OF lt id ne np None] run by simp
          moreover have "line + int (count_newlines token) = line_after (take (index + length token) code)"
            using ln by (simp add: t1 line_after_append)
          moreover have "next_col token col = col_after (take (index + length token) code)"
            using cl by (simp add: t1 col_after_append)
          ultimately obtain new where
            new: "toks = (result @ [?t]) @ new" "accurate_list code (index + length token) new"
            using less.hyps[OF d1 _ b1] by blast
          have "toks = result @ (?t # new)" using new(1) by simp
          moreover have "accurate_list code index (?t # new)" using new(2) ln cl by simp
          ultimately show ?thesis by blast
        next
          case (Some m)
          note unfold = lex_loop_descend[OF lt id ne Some]
          obtain r where r: "lex_loop grammar st1 code m [] line (col + int (length token)) (index + length token) = Some r"
            using lex_loop_terminates[of grammar st1 code m "[]" line "col + int (length token)" "index + length token"]
            by blast
          obtain v st2 where rv: "r = (v, st2)" by (cases r)
          show ?thesis
          proof (cases v)
            case (Inl e)
            with unfold r rv run show ?thesis by simp
          next
            case (Inr sub)
            let ?text = "token @ concat (map tok_text sub)"
            let ?o = "Token token type m line col None"
            let ?t = "Token ?text type mode line col (Some (?o # sub))"
            have nested: "lex_loop grammar st1 code m [] line (col + int (length token)) (index + length token)
                = Some (Inr sub, st2)"
              using r rv Inr by simp
            from lex_loop_consumes[OF assms nested b1]
            have ps: "prefix (concat (map tok_text sub)) (drop (index + length token) code)"
              by auto
            have pc: "prefix ?text (drop index code)"
              using prefix_drop_append[OF pt ps] .
            have b2: "index + length ?text \<le> length code"
              using prefix_drop_bound[OF pc bound] .
            have d2: "length code - (index + length ?text) < length code - index"
              using ne lt by (cases token) auto
            have t2: "take (index + length ?text) code = take index code @ ?text"
              using take_add_prefix[OF pc] .
            have kids: "newline \<in> set token \<or> accurate_list code (index + length token) sub"
            proof (cases "newline \<in> set token")
              case True
              then show ?thesis by simp
            next
              case False
              have "line = line_after (take (index + length token) code)"
                using ln False by (simp add: t1 line_after_append count_newlines_single_line)
              moreover have "col + int (length token) = col_after (take (index + length token) code)"
                using cl False by (simp add: t1 col_after_append next_col_single_line)
              ultimately obtain new1 where "sub = [] @ new1"
                  "accurate_list code (index + length token) new1"
                using less.hyps[OF d1 nested b1] by blast
              then show ?thesis by simp
            qed
            have acc: "accurate code index ?t"
              using ln cl kids by simp
            have "lex_loop grammar st2 code mode (result @ [?t])
                   (line + int (count_newlines ?text)) (next_col ?text col) (index + length ?text)
                  = Some (Inr toks, st')"
              using unfold r rv Inr run by simp
            moreover have "line + int (count_newlines ?text) = line_after (take (index + length ?text) code)"
              using ln by (simp only: t2 line_after_append)
            moreover have "next_col ?text col = col_after (take (index + length ?text) code)"
              using cl by (simp only: t2 col_after_append)
            ultimately obtain new where
              new: "toks = (result @ [?t]) @ new" "accurate_list code (index + length ?text) new"
              using less.hyps[OF d2 _ b2] by blast
            have "toks = result @ (?t # new)" using new(1) by simp
            moreover have "accurate_list code index (?t # new)"
              using new(2) acc by simp
            ultimately show ?thesis by blast
          qed
        qed
      qed
    qed
  qed
qed

text \<open>
  C6, as stated, fails in two ways. The descent into a sub-mode passes on the line
  unchanged and the column plus the length of the opening token: after the opening token
  \<open>(\<close> with its line end, the token \<open>x\<close>, which stands at offset 2, line 2, column 1, is
  given line 1, column 3. And \<open>lex\<close> counts the newlines of the texts that the rules
  matched: for the regular expression \<open>/b/\<close> on a line end followed by \<open>b\<close>, the second
  token begins at offset 1, line 2, column 1, and is given line 1, column 2.
\<close>

theorem positions_counterexample:
  "lex block_grammar () [CHR ''('', newline, CHR ''x''] [] [] 1 1 0 =
     Some (Inr [Token [CHR ''('', newline, CHR ''x''] ''open'' ''a'' 1 1
                  (Some [Token [CHR ''('', newline] ''open'' ''b'' 1 1 None,
                         Token ''x'' ''x'' ''b'' 1 3 None])], ()) \<and>
   line_after (take 2 [CHR ''('', newline, CHR ''x'']) = 2 \<and>
   col_after (take 2 [CHR ''('', newline, CHR ''x'']) = 1 \<and>
   lex unanchored_grammar () [newline, CHR ''b''] [] [] 1 1 0 =
     Some (Inr [Token ''b'' ''b'' ''a'' 1 1 None, Token ''b'' ''b'' ''a'' 1 2 None], ()) \<and>
   line_after (take 1 [newline, CHR ''b'']) = 2 \<and>
   col_after (take 1 [newline, CHR ''b'']) = 1"
proof (intro conjI)
  show "lex block_grammar () [CHR ''('', newline, CHR ''x''] [] [] 1 1 0 =
     Some (Inr [Token [CHR ''('', newline, CHR ''x''] ''open'' ''a'' 1 1
                  (Some [Token [CHR ''('', newline] ''open'' ''b'' 1 1 None,
                         Token ''x'' ''x'' ''b'' 1 3 None])], ())"
    by code_simp
  show "line_after (take 2 [CHR ''('', newline, CHR ''x'']) = 2"
    by (simp add: line_after_def count_newlines_def newline_def)
  show "col_after (take 2 [CHR ''('', newline, CHR ''x'']) = 1"
    by (simp add: col_after_def newline_def)
  show "lex unanchored_grammar () [newline, CHR ''b''] [] [] 1 1 0 =
     Some (Inr [Token ''b'' ''b'' ''a'' 1 1 None, Token ''b'' ''b'' ''a'' 1 2 None], ())"
    by code_simp
  show "line_after (take 1 [newline, CHR ''b'']) = 2"
    by (simp add: line_after_def count_newlines_def newline_def)
  show "col_after (take 1 [newline, CHR ''b'']) = 1"
    by (simp add: col_after_def newline_def)
qed

text \<open>
  C6, amended. For every grammar whose matches are prefixes of the code ahead, and every
  input on which \<open>lex\<close>, started at offset 0, line 1, column 1 with no tokens, returns a
  token sequence: every token of the sequence, and every token inside a token of it that
  is not behind an opening token containing a newline, has as its line one more than the
  number of newlines before its first character and as its column one more than the
  number of characters after the last of them (its offset plus one when there is none);
  the offsets are those of the input, of which the texts of the tokens form a prefix.
\<close>

theorem positions_amended:
  assumes "prefix_grammar grammar"
    and "lex grammar st code mode [] 1 1 0 = Some (Inr toks, st')"
  shows "accurate_list code 0 toks \<and> prefix (concat (map tok_text toks)) code"
proof -
  have "(1::int) = line_after (take 0 code)" "(1::int) = col_after (take 0 code)"
    by (simp_all add: line_after_def col_after_def count_newlines_def)
  from lex_loop_accurate[OF assms(1) assms(2)[unfolded lex_def] _ this]
  have "accurate_list code 0 toks" by simp
  moreover from lex_loop_consumes[OF assms(1) assms(2)[unfolded lex_def]]
  have "prefix (concat (map tok_text toks)) code" by auto
  ultimately show ?thesis by simp
qed

lemma prefix_grammar_lines: "prefix_grammar lines_grammar"
  unfolding prefix_grammar_def prefix_rules_def rules_of_def lines_grammar_def
  by (auto split: if_splits)

theorem positions_amended_witness:
  "prefix_grammar lines_grammar \<and>
   lex lines_grammar () (''hello'' @ [newline] @ ''(x'' @ [newline] @ ''x)'') [] [] 1 1 0 =
     Some (Inr [Token ''hello'' ''word'' ''js'' 1 1 None,
                Token [newline] ''ln'' ''js'' 1 6 None,
                Token (''(x'' @ [newline] @ ''x)'') ''open'' ''js'' 2 1
                  (Some [Token ''('' ''open'' ''b'' 2 1 None,
                         Token ''x'' ''x'' ''b'' 2 2 None,
                         Token [newline] ''ln'' ''b'' 2 3 None,
                         Token ''x'' ''x'' ''b'' 3 1 None,
                         Token '')'' ''close'' ''b'' 3 2 None])], ()) \<and>
   accurate_list (''hello'' @ [newline] @ ''(x'' @ [newline] @ ''x)'') 0
     [Token ''hello'' ''word'' ''js'' 1 1 None,
      Token [newline] ''ln'' ''js'' 1 6 None,
      Token (''(x'' @ [newline] @ ''x)'') ''open'' ''js'' 2 1
        (Some [Token ''('' ''open'' ''b'' 2 1 None,
               Token ''x'' ''x'' ''b'' 2 2 None,
               Token [newline] ''ln'' ''b'' 2 3 None,
               Token ''x'' ''x'' ''b'' 3 1 None,
               Token '')'' ''close'' ''b'' 3 2 None])]"
proof -
  have run: "lex lines_grammar () (''hello'' @ [newline] @ ''(x'' @ [newline] @ ''x)'') [] [] 1 1 0 =
     Some (Inr [Token ''hello'' ''word'' ''js'' 1 1 None,
                Token [newline] ''ln'' ''js'' 1 6 None,
                Token (''(x'' @ [newline] @ ''x)'') ''open'' ''js'' 2 1
                  (Some [Token ''('' ''open'' ''b'' 2 1 None,
                         Token ''x'' ''x'' ''b'' 2 2 None,
                         Token [newline] ''ln'' ''b'' 2 3 None,
                         Token ''x'' ''x'' ''b'' 3 1 None,
                         Token '')'' ''close'' ''b'' 3 2 None])], ())"
    by code_simp
  from positions_amended[OF prefix_grammar_lines run] prefix_grammar_lines run
  show ?thesis by simp
qed

subsection \<open>C2: the nesting counters of the html/js grammar\<close>

text \<open>
  C2. The claim makes the counters local to one call, so that the tokens of an input do
  not depend on earlier calls. The counters belong to the module: after a call that
  lexed the unterminated template \<open>`\<close>, \<open>templateDepth\<close> is still 1, and the input
  \<open>};\<close> then yields the single token \<open>}\<close>, where a fresh module yields \<open>}\<close> and \<open>;\<close>.
\<close>

theorem counters_shared_across_calls:
  "lex (lexHtmlJs re) initial_state ''`'' ''js'' [] 1 1 0 =
     Some (Inr [Token ''`'' ''template'' ''js'' 1 1
                  (Some [Token ''`'' ''template'' ''template'' 1 1 None])], stale_state) \<and>
   lex (lexHtmlJs re) stale_state ''};'' ''js'' [] 1 1 0 =
     Some (Inr [Token ''}'' ''brace2'' ''js'' 1 1 None], stale_state) \<and>
   lex (lexHtmlJs re) initial_state ''};'' ''js'' [] 1 1 0 =
     Some (Inr [Token ''}'' ''brace2'' ''js'' 1 1 None, Token '';'' ''semicolon'' ''js'' 1 2 None],
           initial_state\<lparr>braceDepth := - 1\<rparr>)"
proof (intro conjI)
  show "lex (lexHtmlJs re) initial_state ''`'' ''js'' [] 1 1 0 =
     Some (Inr [Token ''`'' ''template'' ''js'' 1 1
                  (Some [Token ''`'' ''template'' ''template'' 1 1 None])], stale_state)"
    by code_simp
  show "lex (lexHtmlJs re) stale_state ''};'' ''js'' [] 1 1 0 =
     Some (Inr [Token ''}'' ''brace2'' ''js'' 1 1 None], stale_state)"
    by code_simp
  show "lex (lexHtmlJs re) initial_state ''};'' ''js'' [] 1 1 0 =
     Some (Inr [Token ''}'' ''brace2'' ''js'' 1 1 None, Token '';'' ''semicolon'' ''js'' 1 2 None],
           initial_state\<lparr>braceDepth := - 1\<rparr>)"
    by code_simp
qed


section \<open>The pattern engine\<close>

lemma unwrap_strings: "unwrap (map RStr xs) = map RStr xs"
proof (cases xs)
  case Nil
  then show ?thesis by simp
next
  case (Cons x ys)
  then show ?thesis by simp
qed

lemma nor_loop_strings_empty: "nor_loop (map string_rule xs) [] = Some (Inr (JNum 1))"
  by (induction xs) (simp_all add: string_rule_def)

lemma fregex_nor_strings_empty: "fregex_nor (map RStr xs) [] = Some (Inr (JNum 1))"
proof -
  have "prepare (map RStr xs) = map string_rule xs"
    by (simp add: prepare_def unwrap_strings)
  then show ?thesis
    by (simp add: fregex_nor_def nor_loop_strings_empty)
qed

lemma fregex_loop_whole_then:
  assumes "f [] = Some (Inr (JNum 1))"
  shows "drop i tokens = rest \<Longrightarrow>
         fregex_loop (map (\<lambda>t. string_rule (tok_text t)) rest @ [f]) i tokens =
           Some (Inr (JNum (i + length rest + 1)))"
proof (induction rest arbitrary: i)
  case Nil
  then show ?case using assms by simp
next
  case (Cons t rest)
  have "drop (Suc i) tokens = rest"
    using Cons.prems by (metis drop_Suc list.sel(3) tl_drop)
  from Cons.IH[OF this] Cons.prems show ?case
    by (simp add: string_rule_def)
qed

lemma unwrap_strings_then: "unwrap (map RStr xs @ [RFun f]) = map RStr xs @ [RFun f]"
proof (cases xs)
  case Nil
  then show ?thesis by simp
next
  case (Cons x ys)
  then show ?thesis by simp
qed

subsection \<open>C10: Nor on the empty slice\<close>

text \<open>
  C10. A Nor whose rules are literal strings, applied to the empty slice, returns 1: no
  string rule matches where there is no token. So a sequence of string rules that matches
  every token of a haystack, followed by such a Nor, reports one token more than the
  haystack holds.
\<close>

theorem nor_on_empty_slice:
  "fregex_nor (map RStr xs) [] = Some (Inr (JNum 1)) \<and>
   fregex (map RStr (map tok_text haystack) @ [RFun (fregex_nor (map RStr xs))]) haystack =
     Some (Inr (JNum (length haystack + 1)))"
proof
  show "fregex_nor (map RStr xs) [] = Some (Inr (JNum 1))"
    by (rule fregex_nor_strings_empty)
next
  have "prepare (map RStr (map tok_text haystack) @ [RFun (fregex_nor (map RStr xs))]) =
        map (\<lambda>t. string_rule (tok_text t)) haystack @ [fregex_nor (map RStr xs)]"
    unfolding prepare_def unwrap_strings_then by (simp add: comp_def)
  moreover have "fregex_loop (map (\<lambda>t. string_rule (tok_text t)) haystack @ [fregex_nor (map RStr xs)]) 0 haystack =
        Some (Inr (JNum (0 + length haystack + 1)))"
    using fregex_loop_whole_then[of "fregex_nor (map RStr xs)" 0 haystack haystack]
      fregex_nor_strings_empty[of xs]
    by simp
  ultimately show "fregex (map RStr (map tok_text haystack) @ [RFun (fregex_nor (map RStr xs))]) haystack =
     Some (Inr (JNum (length haystack + 1)))"
    by (simp add: fregex_def)
qed

theorem nor_on_empty_slice_witness:
  "fregex_nor [RStr ''a'', RStr ''b''] [] = Some (Inr (JNum 1)) \<and>
   fregex [RStr ''x'', RFun (fregex_nor [RStr ''a'', RStr ''b''])] [word ''x''] = Some (Inr (JNum 2))"
  using nor_on_empty_slice[of "[''a'', ''b'']" "[word ''x'']"]
  by (simp add: word_def)

subsection \<open>C7: matchAll\<close>













subsection \<open>C3: xOrMore on a slice that runs out\<close>

text \<open>
  C3. The claim makes \<open>xOrMore(n, p)\<close> fail whenever fewer than \<open>n\<close> repetitions of \<open>p\<close>
  succeed. The loop compares the repetitions with \<open>n\<close> only where \<open>p\<close> fails; when the
  tokens run out it returns the total. On the empty slice every \<open>xOrMore\<close> returns 0,
  and \<open>xOrMore(2, 'a')\<close> on the single token \<open>a\<close> returns 1.
\<close>

theorem xOrMore_exhausted_slice:
  "xOrMore x rules [] = Some (Inr (JNum 0)) \<and>
   oneOrMore [RStr ''a''] [] = Some (Inr (JNum 0)) \<and>
   xOrMore 2 [RStr ''a''] [word ''a''] = Some (Inr (JNum 1))"
proof (intro conjI)
  have empty: "xOrMore_loop f y i n [] = Some (Inr (JNum n))" for f y i n
    by (subst xOrMore_loop.simps) simp
  show "xOrMore x rules [] = Some (Inr (JNum 0))"
    by (simp add: xOrMore_def Let_def empty)
  show "oneOrMore [RStr ''a''] [] = Some (Inr (JNum 0))"
    by (simp add: oneOrMore_def xOrMore_def Let_def empty)
  show "xOrMore 2 [RStr ''a''] [word ''a''] = Some (Inr (JNum 1))"
    by code_simp
qed

subsection \<open>C4: an object rule on the empty slice\<close>

text \<open>
  C4. The claim makes every non-match the value \<open>false\<close>. An object rule reads a property
  of \<open>tokens[0]\<close>, which on the empty slice is \<open>undefined\<close>: the sequence of the string
  \<open>import\<close> and the object \<open>{type: 'string'}\<close>, applied to the single token \<open>import\<close>,
  throws, and so does the pattern \<open>isImport\<close> of the consumer.
\<close>

theorem object_rule_empty_slice_throws:
  "fregex [RStr ''import'', RObj [AttrType ''string'']]
     [Token ''import'' ''keyword'' ''js'' 1 1 None] = Some (Inl TypeError) \<and>
   isImport [Token ''import'' ''keyword'' ''js'' 1 1 None] = Some (Inl TypeError)"
proof
  show "fregex [RStr ''import'', RObj [AttrType ''string'']]
     [Token ''import'' ''keyword'' ''js'' 1 1 None] = Some (Inl TypeError)"
    by code_simp
  show "isImport [Token ''import'' ''keyword'' ''js'' 1 1 None] = Some (Inl TypeError)"
    by code_simp
qed

end
